theory Spec2Isabelle
  imports Complex_Main "HOL-Library.Sublist" "HOL-Library.AList"
begin

section \<open>Strings\<close>

text \<open>
  Python strings are modelled as \<open>string\<close> (lists of 8-bit characters), read as ASCII text.
  \<open>str.lower\<close> maps the letters \<open>A\<close>..\<open>Z\<close> to \<open>a\<close>..\<open>z\<close> and leaves every other
  character alone; \<open>kw in s\<close> is contiguous containment, \<^const>\<open>sublist\<close> \<open>kw s\<close>.
  \<open>str.isdigit\<close> and the whitespace of \<open>str.split\<close> are their ASCII classes.
\<close>

definition lower_char :: "char \<Rightarrow> char" where
  "lower_char c =
     (case map_of (zip ''ABCDEFGHIJKLMNOPQRSTUVWXYZ'' ''abcdefghijklmnopqrstuvwxyz'') c of
        Some l \<Rightarrow> l
      | None \<Rightarrow> c)"

definition lower :: "string \<Rightarrow> string" where
  "lower s = map lower_char s"

definition isdigit :: "char \<Rightarrow> bool" where
  "isdigit c = (c \<in> set ''0123456789'')"

text \<open>Tab, line feed, vertical tab, form feed, carriage return, the four separators, space.\<close>

definition isspace :: "char \<Rightarrow> bool" where
  "isspace c =
     (c \<in> set [CHR 0x09, CHR 0x0A, CHR 0x0B, CHR 0x0C, CHR 0x0D,
                CHR 0x1C, CHR 0x1D, CHR 0x1E, CHR 0x1F, CHR 0x20])"

text \<open>\<open>str.split()\<close> without arguments: maximal runs of non-whitespace characters.\<close>

fun split_acc :: "string \<Rightarrow> string \<Rightarrow> string list" where
  "split_acc cur [] = (if cur = [] then [] else [cur])"
| "split_acc cur (c # cs) =
     (if isspace c then (if cur = [] then split_acc [] cs else cur # split_acc [] cs)
      else split_acc (cur @ [c]) cs)"

definition split :: "string \<Rightarrow> string list" where
  "split s = split_acc [] s"

datatype py_error = KeyError | ValueError | ZeroDivisionError

section \<open>Safety guardrails (safety\_guardrails.py)\<close>

datatype SafetyLevel = ALLOWED | REQUIRES_CONFIRMATION | FORBIDDEN

definition forbidden_keywords :: "string list" where
  "forbidden_keywords =
     [''bypass'', ''disable'', ''remove'', ''ignore'', ''override'',
      ''safety'', ''interlock'', ''guard'', ''sensor'', ''alarm'']"

definition confirmation_keywords :: "string list" where
  "confirmation_keywords = [''emergency'', ''stop'', ''shutdown'', ''power off'', ''restart'']"

definition safety_standards :: "(string \<times> string) list" where
  "safety_standards =
     [(''lockout_tagout'', ''OSHA 1910.147 - Lockout/Tagout''),
      (''guards'', ''OSHA 1910.212 - General Requirements for Safety''),
      (''ppe'', ''OSHA 1910 Subpart I - Personal Protective Equipment''),
      (''emergency'', ''ANSI Z535.1 - Safety Color Code'')]"

text \<open>The f-string \<open>Response contains unsafe keyword: '{keyword}'\<close>.\<close>

definition unsafe_reason :: "string \<Rightarrow> string" where
  "unsafe_reason keyword =
     ''Response contains unsafe keyword: '' @ [CHR 0x27] @ keyword @ [CHR 0x27]"

definition confirmation_reason :: string where
  "confirmation_reason = ''Emergency action requires human confirmation''"

text \<open>
  The two \<open>for\<close> loops of \<open>check_safety\<close>, each returning from the function at the first
  keyword found in the lower-cased response. The result is the returned pair together with
  the warnings handed to the logger.
\<close>

type_synonym safety_result = "(SafetyLevel \<times> string option) \<times> string list"

fun confirmation_loop :: "string list \<Rightarrow> string \<Rightarrow> safety_result" where
  "confirmation_loop [] response_lower = ((ALLOWED, None), [])"
| "confirmation_loop (keyword # rest) response_lower =
     (if sublist keyword response_lower
      then ((REQUIRES_CONFIRMATION, Some confirmation_reason), [])
      else confirmation_loop rest response_lower)"

fun forbidden_loop :: "string list \<Rightarrow> string \<Rightarrow> safety_result" where
  "forbidden_loop [] response_lower = confirmation_loop confirmation_keywords response_lower"
| "forbidden_loop (keyword # rest) response_lower =
     (if sublist keyword response_lower
      then (let reason = unsafe_reason keyword
            in ((FORBIDDEN, Some reason), [''Blocked: '' @ reason]))
      else forbidden_loop rest response_lower)"

definition check_safety :: "string \<Rightarrow> string \<Rightarrow> safety_result" where
  "check_safety query response =
     (let response_lower = lower response in forbidden_loop forbidden_keywords response_lower)"

definition procedural_words :: "string list" where
  "procedural_words = [''procedure'', ''step'', ''do'']"

definition generic_disclaimer :: string where
  "generic_disclaimer =
     [CHR 0x0A, CHR 0x0A] @ ''Always follow established procedures and safety protocols.''"

definition standard_disclaimer :: "string \<Rightarrow> string" where
  "standard_disclaimer standard = [CHR 0x0A, CHR 0x0A] @ ''Safety Note: See '' @ standard"

text \<open>
  \<open>safety_topic and safety_topic in self.safety_standards\<close>: \<open>None\<close> and the empty string
  are falsy; the subscript that follows is the lookup that succeeded.
\<close>

definition topic_standard :: "string option \<Rightarrow> string option" where
  "topic_standard safety_topic =
     (case safety_topic of
        None \<Rightarrow> None
      | Some t \<Rightarrow> if t = [] then None else map_of safety_standards t)"

definition sanitize_response :: "string \<Rightarrow> string option \<Rightarrow> string" where
  "sanitize_response response safety_topic =
     (case topic_standard safety_topic of
        Some standard \<Rightarrow> response @ standard_disclaimer standard
      | None \<Rightarrow>
          if list_ex (\<lambda>word. sublist word (lower response)) procedural_words
          then response @ generic_disclaimer
          else response)"

section \<open>Intent classifier (intent\_classifier.py)\<close>

text \<open>The members of the enumeration, in declaration order.\<close>

datatype ManufacturingIntent =
    SOP_LOOKUP | PRODUCTION_STATUS | MAINTENANCE_REQUEST | QUALITY_CHECK | SAFETY_QUERY
  | WORK_ORDER | PART_SEARCH | TRAINING | UNKNOWN

definition all_intents :: "ManufacturingIntent list" where
  "all_intents =
     [SOP_LOOKUP, PRODUCTION_STATUS, MAINTENANCE_REQUEST, QUALITY_CHECK, SAFETY_QUERY,
      WORK_ORDER, PART_SEARCH, TRAINING, UNKNOWN]"

text \<open>
  A \<open>dict\<close> is an association list in insertion order; \<open>d[k] = v\<close> is \<^const>\<open>AList.update\<close>,
  which overwrites in place or appends a new key. The \<open>float\<close> scores are whole numbers
  no larger than the number of keywords, and are modelled as reals.
\<close>

definition sop_keywords :: "string list" where
  "sop_keywords =
     [''show'', ''procedure'', ''steps'', ''how to'', ''instructions'',
      ''changeover'', ''setup'', ''operation'', ''guide'']"

definition production_keywords :: "string list" where
  "production_keywords =
     [''status'', ''running'', ''downtime'', ''oee'', ''cycle time'',
      ''how many'', ''production'', ''output'', ''rate'']"

definition maintenance_keywords :: "string list" where
  "maintenance_keywords =
     [''maintenance'', ''repair'', ''broken'', ''issue'', ''problem'',
      ''bearing'', ''seal'', ''motor'', ''help with'']"

definition quality_keywords :: "string list" where
  "quality_keywords =
     [''quality'', ''check'', ''measure'', ''inspect'', ''specification'',
      ''dimension'', ''tolerance'', ''defect'']"

definition safety_keywords :: "string list" where
  "safety_keywords =
     [''safety'', ''safe'', ''guard'', ''danger'', ''warning'', ''hazard'',
      ''ppe'', ''personal protective'']"

definition intent_patterns :: "(ManufacturingIntent \<times> string list) list" where
  "intent_patterns =
     [(SOP_LOOKUP, sop_keywords),
      (PRODUCTION_STATUS, production_keywords),
      (MAINTENANCE_REQUEST, maintenance_keywords),
      (QUALITY_CHECK, quality_keywords),
      (SAFETY_QUERY, safety_keywords)]"

definition entity_patterns :: "(string \<times> string list) list" where
  "entity_patterns =
     [(''machine_id'', [''press'', ''pump'', ''motor'', ''compressor'', ''line'']),
      (''part_number'', [''part'', ''component'', ''product'', ''item''])]"

type_synonym scores = "(ManufacturingIntent \<times> real) list"

text \<open>\<open>{intent: 0.0 for intent in ManufacturingIntent}\<close>\<close>

definition init_scores :: scores where
  "init_scores = map (\<lambda>intent. (intent, 0)) all_intents"

text \<open>
  The inner loop over one intent's keywords; \<open>intent_scores[intent] += 1.0\<close> reads the
  entry before it writes it, and a missing key is a \<open>KeyError\<close>.
\<close>

fun score_keywords ::
  "ManufacturingIntent \<Rightarrow> string list \<Rightarrow> string \<Rightarrow> scores \<Rightarrow> py_error + scores" where
  "score_keywords intent [] query_lower intent_scores = Inr intent_scores"
| "score_keywords intent (keyword # rest) query_lower intent_scores =
     (if sublist keyword query_lower
      then (case map_of intent_scores intent of
              None \<Rightarrow> Inl KeyError
            | Some v \<Rightarrow>
                score_keywords intent rest query_lower
                  (AList.update intent (v + 1) intent_scores))
      else score_keywords intent rest query_lower intent_scores)"

text \<open>The outer loop over \<open>self.intent_patterns.items()\<close>.\<close>

fun score_patterns ::
  "(ManufacturingIntent \<times> string list) list \<Rightarrow> string \<Rightarrow> scores \<Rightarrow> py_error + scores" where
  "score_patterns [] query_lower intent_scores = Inr intent_scores"
| "score_patterns ((intent, keywords) # rest) query_lower intent_scores =
     (case score_keywords intent keywords query_lower intent_scores of
        Inl e \<Rightarrow> Inl e
      | Inr intent_scores' \<Rightarrow> score_patterns rest query_lower intent_scores')"

text \<open>
  \<open>max(intent_scores, key=intent_scores.get)\<close>: the keys are visited in the order of the
  dictionary, a later key replaces the current best only when its score is strictly
  larger, and an empty dictionary is a \<open>ValueError\<close>. The best entry is carried with its
  score, which is what \<open>intent_scores[best_intent]\<close> reads afterwards.
\<close>

fun max_loop ::
  "(ManufacturingIntent \<times> real) \<Rightarrow> scores \<Rightarrow> (ManufacturingIntent \<times> real)" where
  "max_loop best [] = best"
| "max_loop best (entry # rest) = max_loop (if snd best < snd entry then entry else best) rest"

definition py_max :: "scores \<Rightarrow> py_error + (ManufacturingIntent \<times> real)" where
  "py_max intent_scores =
     (case intent_scores of [] \<Rightarrow> Inl ValueError | first # rest \<Rightarrow> Inr (max_loop first rest))"

definition py_div :: "real \<Rightarrow> real \<Rightarrow> py_error + real" where
  "py_div a b = (if b = 0 then Inl ZeroDivisionError else Inr (a / b))"

text \<open>
  The loop over the tokens for one machine keyword: \<open>Some\<close> of the value assigned before
  the \<open>break\<close>, or \<open>None\<close> when the loop runs to its end without assigning.
\<close>

fun scan_words :: "string \<Rightarrow> string list \<Rightarrow> string option" where
  "scan_words machine_keyword [] = None"
| "scan_words machine_keyword [word] = None"
| "scan_words machine_keyword (word # next_word # rest) =
     (if sublist machine_keyword word \<and> list_ex isdigit next_word
      then Some next_word
      else scan_words machine_keyword (next_word # rest))"

text \<open>
  The loop over the machine keywords. The \<open>break\<close> leaves the loop over the tokens only,
  so the remaining keywords are still visited and assign again.
\<close>

fun machine_loop ::
  "string list \<Rightarrow> string \<Rightarrow> (string \<times> string) list \<Rightarrow> (string \<times> string) list" where
  "machine_loop [] query entities = entities"
| "machine_loop (machine_keyword # rest) query entities =
     (if sublist machine_keyword query
      then (case scan_words machine_keyword (split query) of
              Some next_word \<Rightarrow>
                machine_loop rest query (AList.update ''machine_id'' next_word entities)
            | None \<Rightarrow> machine_loop rest query entities)
      else machine_loop rest query entities)"

definition extract_entities :: "string \<Rightarrow> py_error + (string \<times> string) list" where
  "extract_entities query =
     (case map_of entity_patterns ''machine_id'' of
        None \<Rightarrow> Inl KeyError
      | Some machine_keywords \<Rightarrow> Inr (machine_loop machine_keywords query []))"

record ClassifiedIntent =
  intent :: ManufacturingIntent
  confidence :: real
  entities :: "(string \<times> string) list"
  clarification_needed :: bool
  clarification_question :: "string option"

definition clarification_for :: "ManufacturingIntent \<Rightarrow> string option" where
  "clarification_for best_intent =
     (if best_intent = SOP_LOOKUP then Some ''Which machine or process?''
      else if best_intent = MAINTENANCE_REQUEST then Some ''Which equipment needs repair?''
      else None)"

definition classify :: "string \<Rightarrow> py_error + ClassifiedIntent" where
  "classify query =
     (let query_lower = lower query in
      case score_patterns intent_patterns query_lower init_scores of
        Inl e \<Rightarrow> Inl e
      | Inr intent_scores \<Rightarrow>
      (case py_max intent_scores of
        Inl e \<Rightarrow> Inl e
      | Inr (best_intent, best_score) \<Rightarrow>
      (case py_div best_score (max (sum_list (map snd intent_scores)) 1) of
        Inl e \<Rightarrow> Inl e
      | Inr conf \<Rightarrow>
      (case extract_entities query_lower of
        Inl e \<Rightarrow> Inl e
      | Inr ents \<Rightarrow>
          (let needed = (conf < 0.5 \<or> length ents = 0);
               question = (if needed then clarification_for best_intent else None)
           in Inr \<lparr>intent = best_intent, confidence = min 1 conf, entities = ents,
                    clarification_needed = needed, clarification_question = question\<rparr>)))))"

text \<open>
  The raw score in the words of the specification: the number of an intent's trigger
  keywords that occur in the normalised query.
\<close>

definition keywords_of :: "ManufacturingIntent \<Rightarrow> string list" where
  "keywords_of i = (case map_of intent_patterns i of None \<Rightarrow> [] | Some kws \<Rightarrow> kws)"

definition raw_score :: "string \<Rightarrow> ManufacturingIntent \<Rightarrow> real" where
  "raw_score query_lower i =
     real (length (filter (\<lambda>kw. sublist kw query_lower) (keywords_of i)))"

section \<open>Properties of the safety guardrails\<close>

lemma lower_append: "lower (a @ b) = lower a @ lower b"
  by (simp add: lower_def)

lemma confirmation_loop_find:
  "confirmation_loop kws r =
     (case find (\<lambda>k. sublist k r) kws of
        Some k \<Rightarrow> ((REQUIRES_CONFIRMATION, Some confirmation_reason), [])
      | None \<Rightarrow> ((ALLOWED, None), []))"
  by (induction kws) simp_all

lemma forbidden_loop_find:
  "forbidden_loop kws r =
     (case find (\<lambda>k. sublist k r) kws of
        Some k \<Rightarrow> ((FORBIDDEN, Some (unsafe_reason k)), [''Blocked: '' @ unsafe_reason k])
      | None \<Rightarrow> confirmation_loop confirmation_keywords r)"
  by (induction kws) (simp_all add: Let_def)

lemma forbidden_loop_hit:
  "k \<in> set kws \<Longrightarrow> sublist k r \<Longrightarrow> fst (fst (forbidden_loop kws r)) = FORBIDDEN"
  by (induction kws) (auto simp: Let_def)

text \<open>
  C1. \<open>check_safety\<close> returns FORBIDDEN, with an explanation that quotes the keyword, for
  the first entry of \<open>forbidden_keywords\<close> (in list order) that occurs in the lower-cased
  response; when no forbidden keyword occurs and some entry of \<open>confirmation_keywords\<close>
  does, it returns REQUIRES_CONFIRMATION with one fixed explanation, the same for every
  keyword; when neither list has an occurrence it returns ALLOWED and no explanation.
  \<^const>\<open>find\<close> yields the first element of a list that satisfies the predicate. The second
  component is what the logger receives.
\<close>

theorem check_safety_first_match:
  "check_safety q r =
     (case find (\<lambda>k. sublist k (lower r)) forbidden_keywords of
        Some k \<Rightarrow>
          ((FORBIDDEN, Some (''Response contains unsafe keyword: '' @ [CHR 0x27] @ k @ [CHR 0x27])),
           [''Blocked: '' @ ''Response contains unsafe keyword: '' @ [CHR 0x27] @ k @ [CHR 0x27]])
      | None \<Rightarrow>
          (case find (\<lambda>k. sublist k (lower r)) confirmation_keywords of
             Some k \<Rightarrow>
               ((REQUIRES_CONFIRMATION, Some ''Emergency action requires human confirmation''), [])
           | None \<Rightarrow> ((ALLOWED, None), [])))"
  unfolding check_safety_def Let_def forbidden_loop_find confirmation_loop_find
    unsafe_reason_def confirmation_reason_def
  by (simp split: option.splits)

text \<open>
  C2. The result of \<open>check_safety\<close> does not depend on the query: any two queries give
  the same level, explanation and log for the same response.
\<close>

theorem check_safety_ignores_query: "check_safety q1 r = check_safety q2 r"
  by (simp add: check_safety_def)

lemma map_of_standards_nonempty: "map_of safety_standards [] = None"
  by (simp add: safety_standards_def)

lemma topic_standard_eq:
  "topic_standard t = (case t of None \<Rightarrow> None | Some k \<Rightarrow> map_of safety_standards k)"
  by (auto simp: topic_standard_def map_of_standards_nonempty split: option.splits)

text \<open>
  C8. \<open>sanitize_response\<close> returns a string that starts with the whole response. A topic
  that is a key of \<open>safety_standards\<close> appends the note citing the mapped standard,
  whatever the response contains; without such a topic the generic disclaimer is appended
  when the lower-cased response contains "procedure", "step" or "do", and the response is
  returned as it is otherwise.
\<close>

theorem sanitize_response_appends:
  "prefix r (sanitize_response r t)
   \<and> (\<forall>k std. t = Some k \<and> map_of safety_standards k = Some std \<longrightarrow>
         sanitize_response r t = r @ [CHR 0x0A, CHR 0x0A] @ ''Safety Note: See '' @ std)
   \<and> ((\<forall>k. t = Some k \<longrightarrow> map_of safety_standards k = None) \<longrightarrow>
         sanitize_response r t =
           (if sublist ''procedure'' (lower r) \<or> sublist ''step'' (lower r) \<or> sublist ''do'' (lower r)
            then r @ [CHR 0x0A, CHR 0x0A] @ ''Always follow established procedures and safety protocols.''
            else r))"
  by (cases t)
     (auto simp: sanitize_response_def topic_standard_eq standard_disclaimer_def
        generic_disclaimer_def procedural_words_def split: option.splits)

theorem sanitize_response_appends_witness:
  "sanitize_response ''Turn off the main breaker'' (Some ''lockout_tagout'') =
     ''Turn off the main breaker'' @ [CHR 0x0A, CHR 0x0A]
       @ ''Safety Note: See OSHA 1910.147 - Lockout/Tagout''
   \<and> sanitize_response ''Follow these steps to reset the press'' None =
     ''Follow these steps to reset the press'' @ [CHR 0x0A, CHR 0x0A]
       @ ''Always follow established procedures and safety protocols.''
   \<and> sanitize_response ''All clear'' (Some ''welding'') = ''All clear''
   \<and> prefix ''All clear'' (sanitize_response ''All clear'' (Some ''welding''))"
  using sanitize_response_appends [of "''Turn off the main breaker''" "Some ''lockout_tagout''"]
    sanitize_response_appends [of "''Follow these steps to reset the press''" None]
    sanitize_response_appends [of "''All clear''" "Some ''welding''"]
  by (simp add: safety_standards_def lower_def lower_char_def sublist_code prefix_code)

lemma safety_in_standard: "sublist ''safety'' (lower (r @ standard_disclaimer std))"
proof -
  define hdr where "hdr = [CHR 0x0A, CHR 0x0A] @ ''Safety Note: See ''"
  have "sublist ''safety'' (lower hdr)"
    by (simp add: hdr_def lower_def lower_char_def sublist_code prefix_code)
  then have "sublist ''safety'' (lower r @ lower hdr @ lower std)"
    by (metis sublist_append)
  moreover have "standard_disclaimer std = hdr @ std"
    by (simp add: standard_disclaimer_def hdr_def)
  ultimately show ?thesis
    by (simp only: lower_append)
qed

lemma safety_in_generic: "sublist ''safety'' (lower (r @ generic_disclaimer))"
proof -
  have "sublist ''safety'' (lower generic_disclaimer)"
    by (simp add: generic_disclaimer_def lower_def lower_char_def sublist_code prefix_code)
  then show ?thesis
    by (metis lower_append sublist_append append_Nil2)
qed

text \<open>
  C10. Whenever \<open>sanitize_response\<close> changes the response, that is, appends either
  disclaimer, \<open>check_safety\<close> on the sanitized text returns FORBIDDEN for every query:
  both disclaimers contain the forbidden keyword "safety" once lower-cased.
\<close>

theorem sanitize_then_check_forbidden:
  "sanitize_response r t \<noteq> r \<Longrightarrow> fst (fst (check_safety q (sanitize_response r t))) = FORBIDDEN"
proof -
  assume changed: "sanitize_response r t \<noteq> r"
  have mem: "''safety'' \<in> set forbidden_keywords"
    by (simp add: forbidden_keywords_def)
  have "sublist ''safety'' (lower (sanitize_response r t))"
    using changed safety_in_standard safety_in_generic
    by (auto simp: sanitize_response_def split: option.splits if_splits)
  with mem show ?thesis
    by (simp add: check_safety_def forbidden_loop_hit)
qed

theorem sanitize_then_check_forbidden_witness:
  "sanitize_response ''Follow these steps'' None \<noteq> ''Follow these steps''
   \<and> fst (fst (check_safety ''how do I reset?'' (sanitize_response ''Follow these steps'' None))) = FORBIDDEN"
proof -
  have h: "sanitize_response ''Follow these steps'' None \<noteq> ''Follow these steps''"
    by (simp add: sanitize_response_def topic_standard_def procedural_words_def
        generic_disclaimer_def lower_def lower_char_def sublist_code prefix_code)
  show ?thesis
    using h sanitize_then_check_forbidden [OF h, of "''how do I reset?''"] by simp
qed

section \<open>Properties of the intent classifier\<close>

lemma score_keywords_count:
  "score_keywords i kws q sc =
     (case map_of sc i of
        None \<Rightarrow> if filter (\<lambda>kw. sublist kw q) kws = [] then Inr sc else Inl KeyError
      | Some v \<Rightarrow> Inr (AList.update i (v + real (length (filter (\<lambda>kw. sublist kw q) kws))) sc))"
proof (induction kws arbitrary: sc)
  case Nil
  show ?case by (simp add: update_triv split: option.splits)
next
  case (Cons kw kws)
  show ?case
  proof (cases "map_of sc i")
    case None
    then show ?thesis using Cons.IH [of sc] by simp
  next
    case (Some v)
    then show ?thesis
      using Cons.IH [of sc] Cons.IH [of "AList.update i (v + 1) sc"]
      by (simp add: update_conv' add.assoc)
  qed
qed

lemma scores_eq:
  "score_patterns intent_patterns q init_scores = Inr (map (\<lambda>i. (i, raw_score q i)) all_intents)"
  by (simp add: intent_patterns_def init_scores_def all_intents_def score_keywords_count
      raw_score_def keywords_of_def)

lemma find_append:
  "find P (xs @ ys) = (case find P xs of None \<Rightarrow> find P ys | Some x \<Rightarrow> Some x)"
  by (induction xs) simp_all

lemma max_loop_find:
  "find (\<lambda>p. snd p = snd b) pre = Some b \<Longrightarrow> \<forall>p\<in>set pre. snd p \<le> snd b \<Longrightarrow>
   find (\<lambda>p. snd p = Max (snd ` set (pre @ ps))) (pre @ ps) = Some (max_loop b ps)"
proof (induction ps arbitrary: pre b)
  case Nil
  from Nil(1) have "b \<in> set pre"
    by (auto simp: find_Some_iff in_set_conv_nth)
  with Nil(2) have "Max (snd ` set pre) = snd b"
    by (intro Max_eqI) auto
  with Nil(1) show ?case by simp
next
  case (Cons e ps)
  let ?b = "if snd b < snd e then e else b"
  have f: "find (\<lambda>p. snd p = snd ?b) (pre @ [e]) = Some ?b"
  proof (cases "snd b < snd e")
    case True
    with Cons.prems(2) have "\<forall>p\<in>set pre. snd p \<noteq> snd e" by fastforce
    then have "find (\<lambda>p. snd p = snd e) pre = None" by (fastforce simp: find_None_iff)
    with True show ?thesis by (simp add: find_append)
  next
    case False
    with Cons.prems(1) show ?thesis by (simp add: find_append)
  qed
  have le: "\<forall>p\<in>set (pre @ [e]). snd p \<le> snd ?b"
    using Cons.prems(2) by auto
  from Cons.IH [OF f le] show ?case by simp
qed

lemma py_max_first:
  "sc \<noteq> [] \<Longrightarrow>
   \<exists>b. py_max sc = Inr b \<and> find (\<lambda>p. snd p = Max (snd ` set sc)) sc = Some b"
proof -
  assume "sc \<noteq> []"
  then obtain e es where sc: "sc = e # es" by (cases sc) auto
  have "find (\<lambda>p. snd p = Max (snd ` set ([e] @ es))) ([e] @ es) = Some (max_loop e es)"
    by (rule max_loop_find) simp_all
  with sc show ?thesis by (simp add: py_max_def)
qed

lemma find_map_pair:
  "find (\<lambda>p. snd p = m) (map (\<lambda>i. (i, f i)) xs) = map_option (\<lambda>i. (i, f i)) (find (\<lambda>i. f i = m) xs)"
  by (induction xs) simp_all


lemma extract_entities_total: "extract_entities q = Inr (machine_loop [''press'', ''pump'', ''motor'', ''compressor'', ''line''] q [])"
  by (simp add: extract_entities_def entity_patterns_def)

lemma raw_score_nonneg: "0 \<le> raw_score q i"
  by (simp add: raw_score_def)

lemma sum_scores_nonneg: "0 \<le> sum_list (map (raw_score q) xs)"
  by (induction xs) (simp_all add: raw_score_nonneg)

lemma sum_scores_ge: "i \<in> set xs \<Longrightarrow> raw_score q i \<le> sum_list (map (raw_score q) xs)"
proof (induction xs)
  case Nil
  then show ?case by simp
next
  case (Cons x xs)
  show ?case
  proof (cases "i = x")
    case True
    then show ?thesis using sum_scores_nonneg [of q xs] by simp
  next
    case False
    with Cons have "raw_score q i \<le> sum_list (map (raw_score q) xs)" by simp
    then show ?thesis using raw_score_nonneg [of q x] by simp
  qed
qed

lemma all_intents_complete: "i \<in> set all_intents"
  by (cases i) (simp_all add: all_intents_def)

lemma classify_unfold:
  "\<exists>b ents.
     find (\<lambda>i. raw_score (lower q) i = Max (raw_score (lower q) ` set all_intents)) all_intents = Some b
     \<and> extract_entities (lower q) = Inr ents
     \<and> classify q =
         Inr \<lparr>intent = b,
              confidence =
                min 1 (raw_score (lower q) b / max (sum_list (map (raw_score (lower q)) all_intents)) 1),
              entities = ents,
              clarification_needed =
                (raw_score (lower q) b / max (sum_list (map (raw_score (lower q)) all_intents)) 1 < 0.5
                 \<or> length ents = 0),
              clarification_question =
                (if raw_score (lower q) b / max (sum_list (map (raw_score (lower q)) all_intents)) 1 < 0.5
                    \<or> length ents = 0
                 then clarification_for b else None)\<rparr>"
proof -
  let ?sc = "map (\<lambda>i. (i, raw_score (lower q) i)) all_intents"
  have ne: "?sc \<noteq> []" by (simp add: all_intents_def)
  from py_max_first [OF ne] obtain p where
    p: "py_max ?sc = Inr p" "find (\<lambda>p. snd p = Max (snd ` set ?sc)) ?sc = Some p"
    by blast
  have img: "snd ` set ?sc = raw_score (lower q) ` set all_intents"
    by (simp add: image_image)
  from p(2) obtain b where
    b: "find (\<lambda>i. raw_score (lower q) i = Max (raw_score (lower q) ` set all_intents)) all_intents = Some b"
      "p = (b, raw_score (lower q) b)"
    unfolding img find_map_pair by auto
  have sm: "map snd ?sc = map (raw_score (lower q)) all_intents"
    by (simp add: comp_def)
  have den: "max (sum_list (map (raw_score (lower q)) all_intents)) 1 \<noteq> 0"
    by simp
  obtain ents where ents: "extract_entities (lower q) = Inr ents"
    using extract_entities_total by blast
  have "classify q =
         Inr \<lparr>intent = b,
              confidence =
                min 1 (raw_score (lower q) b / max (sum_list (map (raw_score (lower q)) all_intents)) 1),
              entities = ents,
              clarification_needed =
                (raw_score (lower q) b / max (sum_list (map (raw_score (lower q)) all_intents)) 1 < 0.5
                 \<or> length ents = 0),
              clarification_question =
                (if raw_score (lower q) b / max (sum_list (map (raw_score (lower q)) all_intents)) 1 < 0.5
                    \<or> length ents = 0
                 then clarification_for b else None)\<rparr>"
    unfolding classify_def Let_def scores_eq sum.case p(1) b(2) prod.case sm py_div_def ents
    using den by simp
  with b(1) ents show ?thesis by blast
qed

lemma sum_scores_nat: "\<exists>n. sum_list (map (raw_score q) xs) = real n"
proof (induction xs)
  case Nil
  show ?case by simp
next
  case (Cons x xs)
  then obtain n where "sum_list (map (raw_score q) xs) = real n" by blast
  then have "sum_list (map (raw_score q) (x # xs)) =
      real (length (filter (\<lambda>kw. sublist kw q) (keywords_of x)) + n)"
    by (simp add: raw_score_def)
  then show ?case by blast
qed

lemma max_floor: "max (sum_list (map (raw_score q) xs)) 1 =
    (if sum_list (map (raw_score q) xs) = 0 then 1 else sum_list (map (raw_score q) xs))"
proof -
  obtain n where n: "sum_list (map (raw_score q) xs) = real n"
    using sum_scores_nat by blast
  show ?thesis unfolding n by (cases n) simp_all
qed

lemma classify_shape:
  "\<exists>b ents needed.
     find (\<lambda>i. raw_score (lower q) i = Max (raw_score (lower q) ` set all_intents)) all_intents = Some b
     \<and> classify q =
         Inr \<lparr>intent = b,
              confidence =
                min 1 (raw_score (lower q) b / max (sum_list (map (raw_score (lower q)) all_intents)) 1),
              entities = ents,
              clarification_needed = needed,
              clarification_question = (if needed then clarification_for b else None)\<rparr>"
proof -
  from classify_unfold [of q] obtain b ents where
    f: "find (\<lambda>i. raw_score (lower q) i = Max (raw_score (lower q) ` set all_intents)) all_intents = Some b"
    and c: "classify q =
         Inr \<lparr>intent = b,
              confidence =
                min 1 (raw_score (lower q) b / max (sum_list (map (raw_score (lower q)) all_intents)) 1),
              entities = ents,
              clarification_needed =
                (raw_score (lower q) b / max (sum_list (map (raw_score (lower q)) all_intents)) 1 < 0.5
                 \<or> length ents = 0),
              clarification_question =
                (if raw_score (lower q) b / max (sum_list (map (raw_score (lower q)) all_intents)) 1 < 0.5
                    \<or> length ents = 0
                 then clarification_for b else None)\<rparr>"
    by blast
  show ?thesis
    by (rule exI [of _ b], rule exI [of _ ents], rule exI, rule conjI, rule f, rule c)
qed

text \<open>
  C3. \<open>classify\<close> returns a result whose confidence is the winner's raw score divided by
  the sum of the raw scores of all intents floored at 1; the clamp \<open>min 1\<close> leaves that
  quotient as it is, a query whose scores are all zero gets confidence 0 (the floor is what
  is divided by), any other query gets the plain quotient, and the confidence lies in
  \<open>[0, 1]\<close>. Scores and quotient are read as real numbers.
\<close>

theorem classify_confidence:
  "\<exists>r. classify q = Inr r
     \<and> confidence r =
         min 1 (raw_score (lower q) (intent r)
                  / max (sum_list (map (raw_score (lower q)) all_intents)) 1)
     \<and> confidence r =
         (if sum_list (map (raw_score (lower q)) all_intents) = 0 then 0
          else raw_score (lower q) (intent r) / sum_list (map (raw_score (lower q)) all_intents))
     \<and> 0 \<le> confidence r \<and> confidence r \<le> 1"
proof -
  define S where "S = sum_list (map (raw_score (lower q)) all_intents)"
  from classify_shape [of q] obtain b ents needed where
    c: "classify q =
         Inr \<lparr>intent = b, confidence = min 1 (raw_score (lower q) b / max S 1),
              entities = ents, clarification_needed = needed,
              clarification_question = (if needed then clarification_for b else None)\<rparr>"
    unfolding S_def by blast
  define x where "x = raw_score (lower q) b"
  have nn: "0 \<le> x" unfolding x_def by (rule raw_score_nonneg)
  have le: "x \<le> S" unfolding x_def S_def by (rule sum_scores_ge) (rule all_intents_complete)
  have mx: "max S 1 = (if S = 0 then 1 else S)"
    unfolding S_def by (rule max_floor)
  have le1: "x / max S 1 \<le> 1"
    using nn le by (simp add: mx)
  have ge0: "0 \<le> x / max S 1"
    using nn le by (simp add: mx)
  have eq: "x / max S 1 = (if S = 0 then 0 else x / S)"
    using nn le by (simp add: mx)
  have m: "min 1 (x / max S 1) = x / max S 1"
    using le1 by (rule min_absorb2)
  let ?r = "\<lparr>intent = b, confidence = min 1 (x / max S 1),
              entities = ents, clarification_needed = needed,
              clarification_question = (if needed then clarification_for b else None)\<rparr>"
  have "classify q = Inr ?r" using c by (simp only: x_def)
  moreover have "confidence ?r = min 1 (raw_score (lower q) (intent ?r) / max S 1)"
    by (simp add: x_def)
  moreover have "confidence ?r = (if S = 0 then 0 else raw_score (lower q) (intent ?r) / S)"
    using eq m by (simp add: x_def)
  moreover have "0 \<le> confidence ?r" using ge0 m by simp
  moreover have "confidence ?r \<le> 1" using le1 m by simp
  ultimately show ?thesis unfolding S_def by blast
qed

text \<open>
  C7. The clarification question of the result is present exactly when clarification is
  needed and the intent is SOP lookup or maintenance request; its text is then
  "Which machine or process?" for SOP lookup and "Which equipment needs repair?" for
  maintenance request, and it is absent in every other case.
\<close>

theorem classify_clarification_question:
  "\<exists>r. classify q = Inr r
     \<and> (clarification_question r \<noteq> None) =
         (clarification_needed r \<and> (intent r = SOP_LOOKUP \<or> intent r = MAINTENANCE_REQUEST))
     \<and> clarification_question r =
         (if clarification_needed r \<and> intent r = SOP_LOOKUP
          then Some ''Which machine or process?''
          else if clarification_needed r \<and> intent r = MAINTENANCE_REQUEST
          then Some ''Which equipment needs repair?''
          else None)"
proof -
  from classify_shape [of q] obtain b c ents needed where
    "classify q =
         Inr \<lparr>intent = b, confidence = c, entities = ents, clarification_needed = needed,
              clarification_question = (if needed then clarification_for b else None)\<rparr>"
    by blast
  then show ?thesis
    by (simp add: clarification_for_def)
qed

lemma find_before:
  "find P xs = Some x \<Longrightarrow> list_all (\<lambda>y. \<not> P y) (takeWhile (\<lambda>y. y \<noteq> x) xs)"
  by (induction xs) (auto split: if_splits)

text \<open>
  C5. \<open>classify\<close> returns the first intent, in the declaration order of the enumeration,
  whose raw score is the maximum over all intents: no intent scores more than the winner,
  and every intent declared before the winner scores strictly less. \<open>classify\<close> is a
  function of the query and the fixed tables, so the same query always has the same winner.
\<close>

theorem classify_tie_break:
  "\<exists>r. classify q = Inr r
     \<and> find (\<lambda>i. raw_score (lower q) i = Max (raw_score (lower q) ` set all_intents)) all_intents
         = Some (intent r)
     \<and> (\<forall>i. raw_score (lower q) i \<le> raw_score (lower q) (intent r))
     \<and> list_all (\<lambda>i. raw_score (lower q) i < raw_score (lower q) (intent r))
         (takeWhile (\<lambda>i. i \<noteq> intent r) all_intents)"
proof -
  define raw where "raw = raw_score (lower q)"
  define M where "M = Max (raw ` set all_intents)"
  from classify_shape [of q] obtain b ents needed where
    f: "find (\<lambda>i. raw i = M) all_intents = Some b"
    and c: "classify q =
         Inr \<lparr>intent = b,
              confidence = min 1 (raw b / max (sum_list (map raw all_intents)) 1),
              entities = ents, clarification_needed = needed,
              clarification_question = (if needed then clarification_for b else None)\<rparr>"
    unfolding raw_def M_def by blast
  have le: "raw i \<le> M" for i
    unfolding M_def by (rule Max_ge) (simp_all add: all_intents_complete)
  from f have m: "raw b = M"
    by (simp add: find_Some_iff) blast
  from find_before [OF f]
  have nb: "list_all (\<lambda>i. raw i \<noteq> M) (takeWhile (\<lambda>i. i \<noteq> b) all_intents)" .
  have lt: "list_all (\<lambda>i. raw i < raw b) (takeWhile (\<lambda>i. i \<noteq> b) all_intents)"
    unfolding m
  proof (rule list.pred_mono_strong [OF nb])
    fix i assume "raw i \<noteq> M"
    with le [of i] show "raw i < M" by simp
  qed
  let ?r = "\<lparr>intent = b,
              confidence = min 1 (raw b / max (sum_list (map raw all_intents)) 1),
              entities = ents, clarification_needed = needed,
              clarification_question = (if needed then clarification_for b else None)\<rparr>"
  have 1: "find (\<lambda>i. raw i = M) all_intents = Some (intent ?r)" using f by simp
  have 2: "\<forall>i. raw i \<le> raw (intent ?r)" using le m by simp
  have 3: "list_all (\<lambda>i. raw i < raw (intent ?r)) (takeWhile (\<lambda>i. i \<noteq> intent ?r) all_intents)"
    using lt by simp
  from c 1 2 3 show ?thesis
    unfolding raw_def M_def by blast
qed

lemma unpatterned_zero:
  "raw_score q WORK_ORDER = 0" "raw_score q PART_SEARCH = 0" "raw_score q TRAINING = 0"
  "raw_score q UNKNOWN = 0"
  by (simp_all add: raw_score_def keywords_of_def intent_patterns_def)

lemma find_head: "P x \<Longrightarrow> find P (x # xs) = Some x"
  by simp

lemma winner_first_or_scores:
  assumes "find (\<lambda>i. raw_score q i = Max (raw_score q ` set all_intents)) all_intents = Some b"
  shows "b = SOP_LOOKUP \<or> 0 < raw_score q b"
proof -
  define M where "M = Max (raw_score q ` set all_intents)"
  define P where "P = (\<lambda>i. raw_score q i = M)"
  from assms have f: "find P all_intents = Some b"
    by (simp only: M_def P_def)
  then have "P b" by (simp add: find_Some_iff) blast
  then have m: "raw_score q b = M" by (simp add: P_def)
  have le: "raw_score q SOP_LOOKUP \<le> M"
    unfolding M_def by (rule Max_ge) (simp_all add: all_intents_complete)
  show ?thesis
  proof (cases "P SOP_LOOKUP")
    case True
    have "find P all_intents = Some SOP_LOOKUP"
      unfolding all_intents_def using True by (rule find_head)
    with f have "b = SOP_LOOKUP" by simp
    then show ?thesis ..
  next
    case False
    then have "raw_score q SOP_LOOKUP \<noteq> M" by (simp add: P_def)
    with le have "raw_score q SOP_LOOKUP < M" by simp
    with raw_score_nonneg [of q SOP_LOOKUP] m show ?thesis by simp
  qed
qed


lemma classify_never_unpatterned:
  "\<exists>r. classify q = Inr r \<and> intent r \<noteq> WORK_ORDER \<and> intent r \<noteq> PART_SEARCH
      \<and> intent r \<noteq> TRAINING \<and> intent r \<noteq> UNKNOWN"
proof -
  from classify_shape [of q] obtain b ents needed where
    f: "find (\<lambda>i. raw_score (lower q) i = Max (raw_score (lower q) ` set all_intents)) all_intents = Some b"
    and c: "classify q =
         Inr \<lparr>intent = b,
              confidence =
                min 1 (raw_score (lower q) b / max (sum_list (map (raw_score (lower q)) all_intents)) 1),
              entities = ents, clarification_needed = needed,
              clarification_question = (if needed then clarification_for b else None)\<rparr>"
    by blast
  from winner_first_or_scores [OF f] have d: "b = SOP_LOOKUP \<or> 0 < raw_score (lower q) b" .
  have 1: "b \<noteq> WORK_ORDER" using d unpatterned_zero(1) [of "lower q"] by auto
  have 2: "b \<noteq> PART_SEARCH" using d unpatterned_zero(2) [of "lower q"] by auto
  have 3: "b \<noteq> TRAINING" using d unpatterned_zero(3) [of "lower q"] by auto
  have 4: "b \<noteq> UNKNOWN" using d unpatterned_zero(4) [of "lower q"] by auto
  show ?thesis unfolding c using 1 2 3 4 by simp
qed

text \<open>
  C9, as stated, fails: not every member of the enumeration is returned for some query.
  TRAINING has no keyword list, so its score is always zero, and SOP\_LOOKUP, declared
  first, wins every tie at zero.
\<close>

theorem training_unreachable: "\<not> (\<forall>i. \<exists>q r. classify q = Inr r \<and> intent r = i)"
proof
  assume "\<forall>i. \<exists>q r. classify q = Inr r \<and> intent r = i"
  then obtain q r where r: "classify q = Inr r" "intent r = TRAINING" by blast
  from classify_never_unpatterned [of q] obtain r' where "classify q = Inr r'" "intent r' \<noteq> TRAINING"
    by blast
  with r show False by simp
qed

text \<open>
  No branch of \<open>classify\<close> raises; and whenever no trigger keyword occurs in the query,
  the first member of the enumeration is returned, with confidence 0 and the SOP question.
\<close>

lemma classify_total: "\<exists>r. classify q = Inr r"
  using classify_shape [of q] by blast

lemma zero_sum_zero_scores:
  "sum_list (map (raw_score q) xs) = 0 \<Longrightarrow> i \<in> set xs \<Longrightarrow> raw_score q i = 0"
  using sum_scores_ge [of i xs q] raw_score_nonneg [of q i] by simp

lemma classify_zero_scores:
  assumes z: "sum_list (map (raw_score (lower q)) all_intents) = 0"
  shows "\<exists>r. classify q = Inr r \<and> intent r = SOP_LOOKUP \<and> confidence r = 0
            \<and> clarification_needed r
            \<and> clarification_question r = Some ''Which machine or process?''"
proof -
  define raw where "raw = raw_score (lower q)"
  have zero: "raw i = 0" for i
    unfolding raw_def using z all_intents_complete by (rule zero_sum_zero_scores)
  have img: "raw ` set all_intents = {0}"
    using zero by (auto simp: all_intents_def)
  have M: "Max (raw ` set all_intents) = 0"
    unfolding img by simp
  from classify_unfold [of q] obtain b ents where
    f: "find (\<lambda>i. raw i = Max (raw ` set all_intents)) all_intents = Some b"
    and c: "classify q =
         Inr \<lparr>intent = b,
              confidence = min 1 (raw b / max (sum_list (map raw all_intents)) 1),
              entities = ents,
              clarification_needed =
                (raw b / max (sum_list (map raw all_intents)) 1 < 0.5 \<or> length ents = 0),
              clarification_question =
                (if raw b / max (sum_list (map raw all_intents)) 1 < 0.5 \<or> length ents = 0
                 then clarification_for b else None)\<rparr>"
    unfolding raw_def by blast
  from winner_first_or_scores [of "lower q" b] f have "b = SOP_LOOKUP \<or> 0 < raw b"
    unfolding raw_def by blast
  with zero [of b] have b: "b = SOP_LOOKUP" by simp
  show ?thesis
    unfolding c b by (simp add: zero clarification_for_def)
qed

lemmas eval_defs = classify_def Let_def intent_patterns_def init_scores_def all_intents_def
  sop_keywords_def production_keywords_def maintenance_keywords_def quality_keywords_def
  safety_keywords_def py_max_def py_div_def extract_entities_def entity_patterns_def
  lower_def lower_char_def split_def isspace_def isdigit_def clarification_for_def
  sublist_code prefix_code

lemma reach_sop: "\<exists>r. classify ''show'' = Inr r \<and> intent r = SOP_LOOKUP"
  by (simp add: eval_defs)

lemma reach_production: "\<exists>r. classify ''status'' = Inr r \<and> intent r = PRODUCTION_STATUS"
  by (simp add: eval_defs)

lemma reach_maintenance: "\<exists>r. classify ''repair'' = Inr r \<and> intent r = MAINTENANCE_REQUEST"
  by (simp add: eval_defs)

lemma reach_quality: "\<exists>r. classify ''check'' = Inr r \<and> intent r = QUALITY_CHECK"
  by (simp add: eval_defs)

lemma reach_safety: "\<exists>r. classify ''hazard'' = Inr r \<and> intent r = SAFETY_QUERY"
  by (simp add: eval_defs)

text \<open>
  C4, on the code: a query without any trigger keyword, the empty query among them, is
  classified with confidence 0 and clarification needed, but as SOP\_LOOKUP with the SOP
  clarification question, not as UNKNOWN: every score is zero and \<open>max\<close> keeps the first
  key of the dictionary.
\<close>

theorem classify_no_keywords_is_sop_lookup:
  "classify '''' =
     Inr \<lparr>intent = SOP_LOOKUP, confidence = 0, entities = [], clarification_needed = True,
          clarification_question = Some ''Which machine or process?''\<rparr>
   \<and> classify ''hello'' =
     Inr \<lparr>intent = SOP_LOOKUP, confidence = 0, entities = [], clarification_needed = True,
          clarification_question = Some ''Which machine or process?''\<rparr>"
  by (simp add: eval_defs)

text \<open>
  C6, on the code: in the query "pump 7 press 12" the first configured trigger, "press",
  yields the value "12", and the later trigger "pump" yields "7"; the recorded machine\_id
  is "7". The \<open>break\<close> ends the scan of the tokens for one trigger, not the loop over the
  triggers, so a later trigger that yields a value overwrites an earlier one.
\<close>

theorem machine_id_later_trigger_overwrites:
  "map_of entity_patterns ''machine_id'' = Some [''press'', ''pump'', ''motor'', ''compressor'', ''line'']
   \<and> scan_words ''press'' (split ''pump 7 press 12'') = Some ''12''
   \<and> scan_words ''pump'' (split ''pump 7 press 12'') = Some ''7''
   \<and> extract_entities ''pump 7 press 12'' = Inr [(''machine_id'', ''7'')]"
  by (simp add: eval_defs)

text \<open>
  C9, amended. Each of the five intents that has a keyword list is returned for some
  query, and no query is classified as WORK\_ORDER, PART\_SEARCH or TRAINING, the
  intents without a keyword list.
\<close>

theorem patterned_intents_reachable:
  "(\<exists>q r. classify q = Inr r \<and> intent r = SOP_LOOKUP)
   \<and> (\<exists>q r. classify q = Inr r \<and> intent r = PRODUCTION_STATUS)
   \<and> (\<exists>q r. classify q = Inr r \<and> intent r = MAINTENANCE_REQUEST)
   \<and> (\<exists>q r. classify q = Inr r \<and> intent r = QUALITY_CHECK)
   \<and> (\<exists>q r. classify q = Inr r \<and> intent r = SAFETY_QUERY)
   \<and> (\<forall>q. \<exists>r. classify q = Inr r \<and> intent r \<noteq> WORK_ORDER \<and> intent r \<noteq> PART_SEARCH
          \<and> intent r \<noteq> TRAINING)"
proof -
  have 1: "\<exists>q r. classify q = Inr r \<and> intent r = SOP_LOOKUP"
    by (rule exI [where x = "''show''"]) (rule reach_sop)
  have 2: "\<exists>q r. classify q = Inr r \<and> intent r = PRODUCTION_STATUS"
    by (rule exI [where x = "''status''"]) (rule reach_production)
  have 3: "\<exists>q r. classify q = Inr r \<and> intent r = MAINTENANCE_REQUEST"
    by (rule exI [where x = "''repair''"]) (rule reach_maintenance)
  have 4: "\<exists>q r. classify q = Inr r \<and> intent r = QUALITY_CHECK"
    by (rule exI [where x = "''check''"]) (rule reach_quality)
  have 5: "\<exists>q r. classify q = Inr r \<and> intent r = SAFETY_QUERY"
    by (rule exI [where x = "''hazard''"]) (rule reach_safety)
  have 6: "\<forall>q. \<exists>r. classify q = Inr r \<and> intent r \<noteq> WORK_ORDER \<and> intent r \<noteq> PART_SEARCH
          \<and> intent r \<noteq> TRAINING"
  proof
    fix q
    from classify_never_unpatterned [of q] obtain r where
      "classify q = Inr r" "intent r \<noteq> WORK_ORDER" "intent r \<noteq> PART_SEARCH"
      "intent r \<noteq> TRAINING"
      by blast
    then have "classify q = Inr r \<and> intent r \<noteq> WORK_ORDER \<and> intent r \<noteq> PART_SEARCH
          \<and> intent r \<noteq> TRAINING"
      by simp
    then show "\<exists>r. classify q = Inr r \<and> intent r \<noteq> WORK_ORDER \<and> intent r \<noteq> PART_SEARCH
          \<and> intent r \<noteq> TRAINING" ..
  qed
  show ?thesis
    by (rule conjI, rule 1, rule conjI, rule 2, rule conjI, rule 3, rule conjI, rule 4,
        rule conjI, rule 5, rule 6)
qed

end
